theory Spec2Isabelle
  imports Main "HOL-Library.AList" "HOL-Library.Multiset" "HOL-Library.List_Lexorder" "HOL-Library.Char_ord"
begin

section \<open>JavaScript values of a parsed document\<close>

text \<open>
  The functions of \<^verbatim>\<open>src/openapi.ts\<close> run on whatever \<^verbatim>\<open>JSON.parse\<close> returned: the
  TypeScript types are erased, and \<^verbatim>\<open>resolveRef\<close> walks the document as a plain
  \<^verbatim>\<open>Record<string, unknown>\<close>. The model therefore works on untyped JSON values.
  An object is the list of its own properties in the order in which \<^verbatim>\<open>Object.keys\<close>
  and \<^verbatim>\<open>Object.entries\<close> enumerate them. \<^verbatim>\<open>undefined\<close> is \<open>None\<close> of
  \<open>json option\<close>; \<^verbatim>\<open>null\<close> is \<open>JNull\<close>. Numbers are integers (the program only
  tests them for truthiness and prints them). Strings are character lists.
  The fixed property names the program reads (\<^verbatim>\<open>$ref\<close>, \<^verbatim>\<open>type\<close>, \<^verbatim>\<open>paths\<close>, ...) are
  not names of inherited properties, so \<open>getProp\<close> reads own properties only; the one
  place where a name computed from the document is read, the loop of \<^verbatim>\<open>resolveRef\<close>, is
  modelled with the prototype chain.
\<close>

datatype json =
    JNull
  | JBool bool
  | JNum int
  | JStr string
  | JArr "json list"
  | JObj "(string \<times> json) list"

datatype error = TypeError

text \<open>Decimal rendering of an array index, as in the property keys of an array.\<close>

function show_nat :: "nat \<Rightarrow> string" where
  "show_nat n = (if n < 10 then [char_of (48 + n)] else show_nat (n div 10) @ [char_of (48 + n mod 10)])"
  by pat_completeness auto
termination
  by (relation "measure id") auto

declare show_nat.simps [simp del]

definition show_int :: "int \<Rightarrow> string" where
  "show_int i = (if i < 0 then CHR ''-'' # show_nat (nat (- i)) else show_nat (nat i))"

text \<open>
  \<^verbatim>\<open>Object.entries(v)\<close> for a value that is not \<^verbatim>\<open>null\<close> (every call site applies
  \<^verbatim>\<open>?? {}\<close> or a guard first): own properties of an object, index properties of an
  array or a string, nothing for a number or a boolean.
\<close>

definition entries :: "json \<Rightarrow> (string \<times> json) list" where
  "entries v =
     (case v of
        JObj kvs \<Rightarrow> kvs
      | JArr xs \<Rightarrow> zip (map show_nat [0..<length xs]) xs
      | JStr s \<Rightarrow> zip (map show_nat [0..<length s]) (map (\<lambda>c. JStr [c]) s)
      | _ \<Rightarrow> [])"

text \<open>\<^verbatim>\<open>v[k]\<close> for a value that is not \<^verbatim>\<open>null\<close>.\<close>

definition getProp :: "json \<Rightarrow> string \<Rightarrow> json option" where
  "getProp v k =
     (case v of
        JObj kvs \<Rightarrow> map_of kvs k
      | JArr xs \<Rightarrow> if k = ''length'' then Some (JNum (int (length xs))) else map_of (entries v) k
      | JStr s \<Rightarrow> if k = ''length'' then Some (JNum (int (length s))) else map_of (entries v) k
      | _ \<Rightarrow> None)"

text \<open>Truthiness (\<^verbatim>\<open>!x\<close>, \<^verbatim>\<open>x ? a : b\<close>, \<^verbatim>\<open>if (x)\<close>).\<close>

fun truthy :: "json option \<Rightarrow> bool" where
  "truthy None = False"
| "truthy (Some JNull) = False"
| "truthy (Some (JBool b)) = b"
| "truthy (Some (JNum i)) = (i \<noteq> 0)"
| "truthy (Some (JStr s)) = (s \<noteq> [])"
| "truthy (Some (JArr xs)) = True"
| "truthy (Some (JObj kvs)) = True"

text \<open>\<^verbatim>\<open>a ?? b\<close>: the right operand is taken when the left is \<^verbatim>\<open>undefined\<close> or \<^verbatim>\<open>null\<close>.\<close>

fun nullish :: "json option \<Rightarrow> bool" where
  "nullish None = True"
| "nullish (Some JNull) = True"
| "nullish (Some v) = False"

definition coalesce :: "json option \<Rightarrow> json option \<Rightarrow> json option" where
  "coalesce a b = (if nullish a then b else a)"

text \<open>\<^verbatim>\<open>x?.length\<close> taken as a condition.\<close>

definition lengthTruthy :: "json option \<Rightarrow> bool" where
  "lengthTruthy x = (case x of None \<Rightarrow> False | Some JNull \<Rightarrow> False | Some v \<Rightarrow> truthy (getProp v ''length''))"

text \<open>\<^verbatim>\<open>x && typeof x === 'object'\<close>: objects and arrays.\<close>

fun isObject :: "json option \<Rightarrow> bool" where
  "isObject (Some (JObj kvs)) = True"
| "isObject (Some (JArr xs)) = True"
| "isObject v = False"

text \<open>\<^verbatim>\<open>String(v)\<close>, and \<^verbatim>\<open>xs.join(sep)\<close>, which prints \<^verbatim>\<open>null\<close> as the empty string.\<close>

fun join :: "string \<Rightarrow> string list \<Rightarrow> string" where
  "join sep [] = []"
| "join sep [x] = x"
| "join sep (x # y # ys) = x @ sep @ join sep (y # ys)"

fun String :: "json \<Rightarrow> string" where
  "String JNull = ''null''"
| "String (JBool b) = (if b then ''true'' else ''false'')"
| "String (JNum i) = show_int i"
| "String (JStr s) = s"
| "String (JArr xs) = join '','' (map (\<lambda>x. if x = JNull then [] else String x) xs)"
| "String (JObj kvs) = ''[object Object]''"

definition joinValues :: "string \<Rightarrow> json list \<Rightarrow> string" where
  "joinValues sep xs = join sep (map (\<lambda>x. if x = JNull then [] else String x) xs)"

section \<open>Reference resolver\<close>

fun split :: "char \<Rightarrow> string \<Rightarrow> string list" where
  "split sep [] = [[]]"
| "split sep (c # cs) =
     (if c = sep then [] # split sep cs
      else (case split sep cs of [] \<Rightarrow> [[c]] | p # ps \<Rightarrow> (c # p) # ps))"

text \<open>
  What \<^verbatim>\<open>cur\<close> can be in the loop of \<^verbatim>\<open>resolveRef\<close>: a value of the document, or
  one of the two prototype objects that \<^verbatim>\<open>cur[p]\<close> reaches through \<^verbatim>\<open>__proto__\<close>. Both
  prototypes are objects for \<^verbatim>\<open>typeof\<close> and have no enumerable property of their own.
\<close>

datatype target = Value json | ObjectPrototype | ArrayPrototype

fun isObjectTarget :: "target option \<Rightarrow> bool" where
  "isObjectTarget (Some (Value v)) = isObject (Some v)"
| "isObjectTarget (Some ObjectPrototype) = True"
| "isObjectTarget (Some ArrayPrototype) = True"
| "isObjectTarget None = False"

text \<open>
  \<^verbatim>\<open>cur[p]\<close> for an object \<^verbatim>\<open>cur\<close>, own properties first, then the prototype chain.
  Of the inherited properties only \<^verbatim>\<open>__proto__\<close> is an object (and \<^verbatim>\<open>length\<close> of the
  array prototype a number); all others are functions, which the loop's test
  \<^verbatim>\<open>typeof cur !== 'object'\<close> rejects as it rejects \<^verbatim>\<open>undefined\<close>, so they read as
  \<open>None\<close> here.
\<close>

fun readProp :: "target \<Rightarrow> string \<Rightarrow> target option" where
  "readProp (Value v) p =
     (case getProp v p of
        Some x \<Rightarrow> Some (Value x)
      | None \<Rightarrow>
          if p = ''__proto__''
          then (case v of
                  JObj kvs \<Rightarrow> Some ObjectPrototype
                | JArr xs \<Rightarrow> Some ArrayPrototype
                | _ \<Rightarrow> None)
          else None)"
| "readProp ArrayPrototype p =
     (if p = ''__proto__'' then Some ObjectPrototype
      else if p = ''length'' then Some (Value (JNum 0))
      else None)"
| "readProp ObjectPrototype p = (if p = ''__proto__'' then Some (Value JNull) else None)"

text \<open>The own enumerable properties that \<^verbatim>\<open>{ ...direct }\<close> copies.\<close>

fun ownEntries :: "target \<Rightarrow> (string \<times> json) list" where
  "ownEntries (Value v) = entries v"
| "ownEntries ObjectPrototype = []"
| "ownEntries ArrayPrototype = []"

text \<open>The loop of \<^verbatim>\<open>resolveRef\<close> over the path segments, with its check after the loop.\<close>

fun follow :: "target option \<Rightarrow> string list \<Rightarrow> target option" where
  "follow cur [] = (if isObjectTarget cur then cur else None)"
| "follow cur (p # ps) =
     (case cur of
        None \<Rightarrow> None
      | Some c \<Rightarrow> if isObjectTarget cur then follow (readProp c p) ps else None)"

definition resolveRef :: "json \<Rightarrow> string \<Rightarrow> target option" where
  "resolveRef doc ref =
     (if take 2 ref \<noteq> ''#/'' then None
      else follow (Some (Value doc)) (split CHR ''/'' (drop 2 ref)))"

text \<open>
  \<^verbatim>\<open>{ ...direct, ...schema }\<close>: the properties of the first, with the values of the second
  where both have the key, then the properties only the second has.
\<close>

definition spread :: "(string \<times> 'a) list \<Rightarrow> (string \<times> 'a) list \<Rightarrow> (string \<times> 'a) list" where
  "spread a b =
     map (\<lambda>(k, v). (k, case map_of b k of Some v' \<Rightarrow> v' | None \<Rightarrow> v)) a
     @ filter (\<lambda>(k, v). map_of a k = None) b"

text \<open>
  \<^verbatim>\<open>resolveSchema\<close>. Reading \<^verbatim>\<open>schema.$ref\<close> of \<^verbatim>\<open>null\<close> throws, and so does
  \<^verbatim>\<open>ref.startsWith\<close> when the truthy \<^verbatim>\<open>$ref\<close> is not a string.
\<close>

definition resolveSchema :: "json \<Rightarrow> json \<Rightarrow> error + json" where
  "resolveSchema doc schema =
     (if schema = JNull then Inl TypeError
      else if \<not> truthy (getProp schema ''$ref'') then Inr schema
      else (case getProp schema ''$ref'' of
              Some (JStr ref) \<Rightarrow>
                (case resolveRef doc ref of
                   None \<Rightarrow> Inr schema
                 | Some direct \<Rightarrow>
                     Inr (JObj (AList.delete ''$ref'' (spread (ownEntries direct) (entries schema)))))
            | _ \<Rightarrow> Inl TypeError))"

definition refToName :: "string \<Rightarrow> string" where
  "refToName ref =
     (if CHR ''/'' \<in> set ref then rev (takeWhile (\<lambda>c. c \<noteq> CHR ''/'') (rev ref)) else ref)"

subsection \<open>The resolver on a store of objects\<close>















section \<open>Outcomes of the recursive functions\<close>

text \<open>
  \<^verbatim>\<open>schemaToTypeText\<close> and \<^verbatim>\<open>walkSchema\<close> recurse through references, so they need
  not return. They take a bound on the depth of the recursion: \<open>None\<close> says that the
  bound was reached, \<open>Some (Inl TypeError)\<close> that the call throws, and \<open>Some (Inr v)\<close>
  that it returns \<open>v\<close>. A call that is \<open>None\<close> for every bound never returns (in the
  engine it ends with the call stack exhausted).
\<close>

type_synonym 'a outcome = "(error + 'a) option"

text \<open>\<^verbatim>\<open>xs.map(f)\<close> for an \<open>f\<close> that can throw or not return.\<close>

fun mapOutcome :: "('a \<Rightarrow> 'b outcome) \<Rightarrow> 'a list \<Rightarrow> 'b list outcome" where
  "mapOutcome f [] = Some (Inr [])"
| "mapOutcome f (x # xs) =
     (case f x of
        None \<Rightarrow> None
      | Some (Inl e) \<Rightarrow> Some (Inl e)
      | Some (Inr y) \<Rightarrow>
          (case mapOutcome f xs of
             None \<Rightarrow> None
           | Some (Inl e) \<Rightarrow> Some (Inl e)
           | Some (Inr ys) \<Rightarrow> Some (Inr (y # ys))))"

text \<open>\<^verbatim>\<open>for (const x of xs) body(x)\<close> on a state that the body updates.\<close>

fun forEach :: "('a \<Rightarrow> 's \<Rightarrow> 's outcome) \<Rightarrow> 'a list \<Rightarrow> 's \<Rightarrow> 's outcome" where
  "forEach body [] st = Some (Inr st)"
| "forEach body (x # xs) st =
     (case body x st of
        None \<Rightarrow> None
      | Some (Inl e) \<Rightarrow> Some (Inl e)
      | Some (Inr st') \<Rightarrow> forEach body xs st')"

text \<open>
  What \<^verbatim>\<open>for ... of\<close> and \<^verbatim>\<open>new Set(...)\<close> iterate: the elements of an array, the
  characters of a string; any other value is not iterable.
\<close>

definition iterate :: "json option \<Rightarrow> error + json list" where
  "iterate v =
     (case v of
        Some (JArr xs) \<Rightarrow> Inr xs
      | Some (JStr s) \<Rightarrow> Inr (map (\<lambda>c. JStr [c]) s)
      | _ \<Rightarrow> Inl TypeError)"

text \<open>\<^verbatim>\<open>typeof v === 'object'\<close>, which holds of \<^verbatim>\<open>null\<close> too.\<close>

fun typeofObject :: "json option \<Rightarrow> bool" where
  "typeofObject (Some JNull) = True"
| "typeofObject (Some (JArr xs)) = True"
| "typeofObject (Some (JObj kvs)) = True"
| "typeofObject v = False"

section \<open>Type renderer\<close>

text \<open>
  \<^verbatim>\<open>members.map((x) => render(x)).join(sep)\<close>, reached when \<^verbatim>\<open>members?.length\<close> is
  truthy: a value that is not an array has no \<^verbatim>\<open>map\<close>.
\<close>

definition renderMembers :: "(json option \<Rightarrow> json outcome) \<Rightarrow> string \<Rightarrow> json option \<Rightarrow> json outcome" where
  "renderMembers render sep members =
     (case members of
        Some (JArr xs) \<Rightarrow>
          (case mapOutcome (\<lambda>x. render (Some x)) xs of
             None \<Rightarrow> None
           | Some (Inl e) \<Rightarrow> Some (Inl e)
           | Some (Inr ts) \<Rightarrow> Some (Inr (JStr (joinValues sep ts))))
      | _ \<Rightarrow> Some (Inl TypeError))"

text \<open>
  The body of \<^verbatim>\<open>schemaToTypeText\<close>, with its recursive calls made through \<open>render\<close>,
  in three parts: the block under \<^verbatim>\<open>if (!type)\<close>, the lines after it, and the head
  that resolves the node and chooses between the two.

  After \<^verbatim>\<open>resolveSchema\<close> has returned, a truthy \<^verbatim>\<open>$ref\<close> is a string (the resolver
  throws otherwise), so the \<open>TypeError\<close> of the \<^verbatim>\<open>refToName\<close> line is never reached.
\<close>

definition untypedText :: "(json option \<Rightarrow> json outcome) \<Rightarrow> json \<Rightarrow> json outcome" where
  "untypedText render s =
     (if lengthTruthy (getProp s ''allOf'') then renderMembers render '' & '' (getProp s ''allOf'')
      else if lengthTruthy (getProp s ''oneOf'') then renderMembers render '' | '' (getProp s ''oneOf'')
      else if lengthTruthy (getProp s ''anyOf'') then renderMembers render '' | '' (getProp s ''anyOf'')
      else if truthy (getProp s ''properties'') then Some (Inr (JStr ''object''))
      else if truthy (getProp s ''$ref'') then
        (case getProp s ''$ref'' of
           Some (JStr ref) \<Rightarrow> Some (Inr (JStr (refToName ref)))
         | _ \<Rightarrow> Some (Inl TypeError))
      else Some (Inr (JStr ''unknown'')))"

text \<open>
  The lines for a truthy \<^verbatim>\<open>type\<close>, here \<open>ty\<close>. The last one returns \<^verbatim>\<open>type\<close> as it
  is, so the result is a value that need not be a string when \<^verbatim>\<open>type\<close> is not one.
\<close>

definition typedText :: "(json option \<Rightarrow> json outcome) \<Rightarrow> json \<Rightarrow> json \<Rightarrow> json outcome" where
  "typedText render s ty =
     (if ty = JStr ''integer''
         \<and> (getProp s ''format'' = Some (JStr ''int64'') \<or> getProp s ''format'' = Some (JStr ''uint64''))
      then Some (Inr (JStr ''string''))
      else if ty = JStr ''array'' then
        (case render (getProp s ''items'') of
           None \<Rightarrow> None
         | Some (Inl e) \<Rightarrow> Some (Inl e)
         | Some (Inr t) \<Rightarrow> Some (Inr (JStr (String t @ ''[]''))))
      else if ty = JStr ''object'' then
        if typeofObject (getProp s ''additionalProperties'') then
          (case render (getProp s ''additionalProperties'') of
             None \<Rightarrow> None
           | Some (Inl e) \<Rightarrow> Some (Inl e)
           | Some (Inr t) \<Rightarrow> Some (Inr (JStr (''Record<string, '' @ String t @ ''>''))))
        else Some (Inr (JStr ''object''))
      else
        (case (if ty = JStr ''string'' then getProp s ''enum'' else None) of
           Some (JArr (e # es)) \<Rightarrow>
             Some (Inr (JStr (''string(enum: '' @ join '', '' (map String (e # es)) @ '')'')))
         | _ \<Rightarrow>
             (case getProp s ''format'' of
                None \<Rightarrow> Some (Inr ty)
              | Some f \<Rightarrow>
                  if truthy (Some f) then Some (Inr (JStr (String ty @ ''('' @ String f @ '')'')))
                  else Some (Inr ty))))"

definition schemaToTypeTextBody :: "(json option \<Rightarrow> json outcome) \<Rightarrow> json \<Rightarrow> json option \<Rightarrow> json outcome" where
  "schemaToTypeTextBody render doc schema =
     (case schema of
        None \<Rightarrow> Some (Inr (JStr ''unknown''))
      | Some sch \<Rightarrow>
          if \<not> truthy schema then Some (Inr (JStr ''unknown''))
          else
            (case resolveSchema doc sch of
               Inl e \<Rightarrow> Some (Inl e)
             | Inr s \<Rightarrow>
                 (case getProp s ''type'' of
                    None \<Rightarrow> untypedText render s
                  | Some ty \<Rightarrow>
                      if \<not> truthy (Some ty) then untypedText render s
                      else typedText render s ty)))"

text \<open>\<^verbatim>\<open>schemaToTypeText\<close> with at most \<open>n\<close> nested calls.\<close>

fun schemaToTypeText :: "nat \<Rightarrow> json \<Rightarrow> json option \<Rightarrow> json outcome" where
  "schemaToTypeText 0 doc schema = None"
| "schemaToTypeText (Suc n) doc schema =
     schemaToTypeTextBody (\<lambda>x. schemaToTypeText n doc x) doc schema"

section \<open>Field flattener\<close>

record FieldInfo =
  name :: string
  type :: json
  required :: bool
  description :: "json option"

text \<open>
  The state of a walk: the array \<^verbatim>\<open>out\<close> and the set \<^verbatim>\<open>visitedRefs\<close>, both created
  once by \<^verbatim>\<open>flattenSchemaFields\<close> and mutated by every call of \<^verbatim>\<open>walkSchema\<close>.
\<close>

type_synonym walk = "FieldInfo list \<times> string list"

definition rootName :: "string \<Rightarrow> string" where
  "rootName prefix = (if prefix \<noteq> [] then prefix else ''(root)'')"

text \<open>
  \<^verbatim>\<open>out.push({ name: prefix || '(root)', type: schemaToTypeText(doc, schema),
  required: parentRequired, description: schema.description })\<close>
\<close>

definition pushField ::
  "(json option \<Rightarrow> json outcome) \<Rightarrow> json \<Rightarrow> string \<Rightarrow> bool \<Rightarrow> walk \<Rightarrow> walk outcome" where
  "pushField render schema nm req st =
     (case render (Some schema) of
        None \<Rightarrow> None
      | Some (Inl e) \<Rightarrow> Some (Inl e)
      | Some (Inr t) \<Rightarrow>
          Some (Inr (fst st @ [\<lparr>name = nm, type = t, required = req,
                                 description = getProp schema ''description''\<rparr>], snd st)))"

text \<open>The body of the loop over \<^verbatim>\<open>propEntries\<close>.\<close>

definition propStep ::
  "(json option \<Rightarrow> json outcome) \<Rightarrow> (json option \<Rightarrow> string \<Rightarrow> bool \<Rightarrow> walk \<Rightarrow> walk outcome)
   \<Rightarrow> json \<Rightarrow> json list \<Rightarrow> string \<Rightarrow> bool \<Rightarrow> string \<times> json \<Rightarrow> walk \<Rightarrow> walk outcome" where
  "propStep render walk doc requiredSet prefix parentRequired entry st =
     (let key = fst entry;
          child = snd entry;
          childPrefix = (if prefix \<noteq> [] then prefix @ ''.'' @ key else key);
          req = (parentRequired \<and> JStr key \<in> set requiredSet)
      in case resolveSchema doc child of
           Inl e \<Rightarrow> Some (Inl e)
         | Inr resolvedChild \<Rightarrow>
             if \<not> truthy (getProp resolvedChild ''$ref'')
                \<and> \<not> truthy (getProp resolvedChild ''properties'')
                \<and> getProp resolvedChild ''type'' \<noteq> Some (JStr ''object'')
                \<and> getProp resolvedChild ''type'' \<noteq> Some (JStr ''array'')
             then pushField render resolvedChild childPrefix req st
             else if getProp resolvedChild ''type'' = Some (JStr ''array'')
             then pushField render resolvedChild childPrefix req st
             else walk (Some resolvedChild) childPrefix req st)"

text \<open>
  The body of \<^verbatim>\<open>walkSchema\<close>, with its recursive calls made through \<open>walk\<close> and
  the renderer's through \<open>render\<close>. A truthy \<^verbatim>\<open>$ref\<close> that is not a string is never
  in the set (it could only have been added just before \<^verbatim>\<open>resolveSchema\<close> threw on
  it), so the call adds it and throws.
\<close>

definition walkSchemaBody ::
  "(json option \<Rightarrow> json outcome) \<Rightarrow> (json option \<Rightarrow> string \<Rightarrow> bool \<Rightarrow> walk \<Rightarrow> walk outcome)
   \<Rightarrow> json \<Rightarrow> json option \<Rightarrow> string \<Rightarrow> bool \<Rightarrow> walk \<Rightarrow> walk outcome" where
  "walkSchemaBody render walk doc schema prefix parentRequired st =
     (case schema of
        None \<Rightarrow> Some (Inr st)
      | Some sch \<Rightarrow>
          if \<not> truthy schema then Some (Inr st)
          else if truthy (getProp sch ''$ref'') then
            (case getProp sch ''$ref'' of
               Some (JStr ref) \<Rightarrow>
                 if ref \<in> set (snd st) then Some (Inr st)
                 else
                   (case resolveSchema doc sch of
                      Inl e \<Rightarrow> Some (Inl e)
                    | Inr resolved \<Rightarrow>
                        walk (Some resolved) prefix parentRequired (fst st, ref # snd st))
             | _ \<Rightarrow> Some (Inl TypeError))
          else if lengthTruthy (getProp sch ''allOf'') then
            (case iterate (getProp sch ''allOf'') of
               Inl e \<Rightarrow> Some (Inl e)
             | Inr parts \<Rightarrow>
                 forEach
                   (\<lambda>part st'.
                      case resolveSchema doc part of
                        Inl e \<Rightarrow> Some (Inl e)
                      | Inr resolved \<Rightarrow> walk (Some resolved) prefix parentRequired st')
                   parts st)
          else if lengthTruthy (getProp sch ''oneOf'') \<or> lengthTruthy (getProp sch ''anyOf'') then
            (case renderMembers render '' | ''
                    (coalesce (coalesce (getProp sch ''oneOf'') (getProp sch ''anyOf'')) (Some (JArr []))) of
               None \<Rightarrow> None
             | Some (Inl e) \<Rightarrow> Some (Inl e)
             | Some (Inr t) \<Rightarrow>
                 Some (Inr (fst st @ [\<lparr>name = rootName prefix, type = t, required = parentRequired,
                                        description = getProp sch ''description''\<rparr>], snd st)))
          else if getProp sch ''type'' = Some (JStr ''object'')
                  \<or> (\<not> truthy (getProp sch ''type'') \<and> truthy (getProp sch ''properties'')) then
            (case iterate (coalesce (getProp sch ''required'') (Some (JArr []))) of
               Inl e \<Rightarrow> Some (Inl e)
             | Inr requiredSet \<Rightarrow>
                 (case coalesce (getProp sch ''properties'') (Some (JObj [])) of
                    None \<Rightarrow> Some (Inl TypeError)
                  | Some props \<Rightarrow>
                      if entries props = [] then
                        pushField render sch (rootName prefix) parentRequired st
                      else
                        forEach (propStep render walk doc requiredSet prefix parentRequired)
                          (entries props) st))
          else pushField render sch (rootName prefix) parentRequired st)"

text \<open>\<^verbatim>\<open>walkSchema\<close> with at most \<open>n\<close> nested calls (of itself or of the renderer).\<close>

fun walkSchema :: "nat \<Rightarrow> json \<Rightarrow> json option \<Rightarrow> string \<Rightarrow> bool \<Rightarrow> walk \<Rightarrow> walk outcome" where
  "walkSchema 0 doc schema prefix parentRequired st = None"
| "walkSchema (Suc n) doc schema prefix parentRequired st =
     walkSchemaBody (\<lambda>x. schemaToTypeText n doc x) (\<lambda>s p r st'. walkSchema n doc s p r st')
       doc schema prefix parentRequired st"

definition flattenSchemaFields :: "nat \<Rightarrow> json \<Rightarrow> json \<Rightarrow> FieldInfo list outcome" where
  "flattenSchemaFields n doc schema =
     (case resolveSchema doc schema of
        Inl e \<Rightarrow> Some (Inl e)
      | Inr resolved \<Rightarrow>
          (case walkSchema n doc (Some resolved) [] True ([], []) of
             None \<Rightarrow> None
           | Some (Inl e) \<Rightarrow> Some (Inl e)
           | Some (Inr st) \<Rightarrow> Some (Inr (fst st))))"

section \<open>Operation extractor\<close>

record ApiOperation =
  id' :: string
  path :: string
  "method" :: string
  tags :: "json option"
  summary :: "json option"
  operation :: json










section \<open>Report builder: the response section\<close>

text \<open>\<^verbatim>\<open>x?.k\<close>, and \<^verbatim>\<open>x[k]\<close> for an \<open>x\<close> that \<^verbatim>\<open>?? {}\<close> has made an object.\<close>

definition optProp :: "json option \<Rightarrow> string \<Rightarrow> json option" where
  "optProp x k = (case x of None \<Rightarrow> None | Some JNull \<Rightarrow> None | Some v \<Rightarrow> getProp v k)"

definition firstResponse :: "json option \<Rightarrow> json option" where
  "firstResponse responses =
     (case responses of
        None \<Rightarrow> None
      | Some r \<Rightarrow> (case entries r of [] \<Rightarrow> None | (k, v) # rest \<Rightarrow> getProp r k))"

definition extractRequestBodySchema :: "json \<Rightarrow> json option" where
  "extractRequestBodySchema op =
     (if \<not> truthy (getProp op ''requestBody'') then None
      else
        (let content = coalesce (optProp (getProp op ''requestBody'') ''content'') (Some (JObj []));
             json = coalesce (coalesce (optProp content ''application/json'') (optProp content ''*/*''))
                      (optProp content ''application/*+json'')
         in optProp json ''schema''))"

definition extractResponseSchema :: "json \<Rightarrow> json option" where
  "extractResponseSchema resp =
     (let content = coalesce (getProp resp ''content'') (Some (JObj []));
          json = coalesce (coalesce (optProp content ''application/json'') (optProp content ''*/*''))
                   (optProp content ''application/*+json'')
      in if truthy (optProp json ''schema'') then optProp json ''schema''
         else if truthy (getProp resp ''schema'') then getProp resp ''schema''
         else None)"

text \<open>
  \<^verbatim>\<open>`- ${f.name}: ${f.type}${f.required ? ' (...)' : ''}${f.description ? ` ${f.description}` : ''}`\<close>;
  the marker of a required field is two CJK characters, written here as their UTF-8 bytes.
\<close>

definition requiredMarker :: string where
  "requiredMarker = '' ('' @ [CHR 0xE5, CHR 0xBF, CHR 0x85, CHR 0xE5, CHR 0xA1, CHR 0xAB] @ '')''"

definition fieldLine :: "FieldInfo \<Rightarrow> string" where
  "fieldLine f =
     ''- '' @ name f @ '': '' @ String (type f)
     @ (if required f then requiredMarker else [])
     @ (case description f of
          None \<Rightarrow> []
        | Some d \<Rightarrow> if truthy (Some d) then '' '' @ String d else [])"

definition buildResponseLines :: "nat \<Rightarrow> json \<Rightarrow> json \<Rightarrow> string list outcome" where
  "buildResponseLines n doc op =
     (if op = JNull then Some (Inl TypeError)
      else
        (let responses = coalesce (getProp op ''responses'') (Some (JObj []));
             preferred = coalesce (coalesce (coalesce (optProp responses ''200'') (optProp responses ''201''))
                                     (optProp responses ''default''))
                           (firstResponse responses)
         in case preferred of
              None \<Rightarrow> Some (Inr [])
            | Some resp \<Rightarrow>
                if \<not> truthy preferred then Some (Inr [])
                else
                  (case extractResponseSchema resp of
                     None \<Rightarrow> Some (Inr [])
                   | Some schema \<Rightarrow>
                       (case flattenSchemaFields n doc schema of
                          None \<Rightarrow> None
                        | Some (Inl e) \<Rightarrow> Some (Inl e)
                        | Some (Inr flds) \<Rightarrow>
                            if flds = [] then
                              (case schemaToTypeText n doc (Some schema) of
                                 None \<Rightarrow> None
                               | Some (Inl e) \<Rightarrow> Some (Inl e)
                               | Some (Inr t) \<Rightarrow> Some (Inr [''- '' @ String t]))
                            else Some (Inr (map fieldLine flds))))))"

section \<open>Example documents\<close>

text \<open>Array index keys consist of decimal digits; the keywords of a schema do not.\<close>

definition isDigit :: "char \<Rightarrow> bool" where
  "isDigit c = (48 \<le> (of_char c :: nat) \<and> (of_char c :: nat) < 58)"

text \<open>
  A document in which the definition \<^verbatim>\<open>B\<close> is itself a reference to \<^verbatim>\<open>C\<close>:
  \<^verbatim>\<open>{components: {schemas: {B: {$ref: '#/components/schemas/C'},
  C: {type: 'string', description: 'c'}}}}\<close>
\<close>

definition chainDoc :: json where
  "chainDoc = JObj [(''components'', JObj [(''schemas'', JObj
      [(''B'', JObj [(''$ref'', JStr ''#/components/schemas/C'')]),
       (''C'', JObj [(''type'', JStr ''string''), (''description'', JStr ''c'')])])])]"

text \<open>
  A schema \<^verbatim>\<open>A\<close> whose property \<^verbatim>\<open>self\<close> refers to \<^verbatim>\<open>A\<close>:
  \<^verbatim>\<open>{components: {schemas: {A: {type: 'object',
  properties: {self: {$ref: '#/components/schemas/A'}}}}}}\<close>
\<close>

definition selfSchema :: json where
  "selfSchema = JObj [(''type'', JStr ''object''),
                      (''properties'', JObj [(''self'', JObj [(''$ref'', JStr ''#/components/schemas/A'')])])]"

definition selfDoc :: json where
  "selfDoc = JObj [(''components'', JObj [(''schemas'', JObj [(''A'', selfSchema)])])]"

text \<open>\<^verbatim>\<open>{oneOf: [], anyOf: [{type: 'string'}]}\<close>\<close>

definition emptyUnion :: json where
  "emptyUnion = JObj [(''oneOf'', JArr []), (''anyOf'', JArr [JObj [(''type'', JStr ''string'')]])]"

section \<open>Auxiliary notions for the proofs\<close>

text \<open>
  \<open>extends r st st'\<close>: the walk from \<open>st\<close> to \<open>st'\<close> has only appended descriptors,
  none of them required unless \<open>r\<close>, and has only added references to the set.
\<close>

definition extends :: "bool \<Rightarrow> walk \<Rightarrow> walk \<Rightarrow> bool" where
  "extends r st st' =
     ((\<exists>new. fst st' = fst st @ new \<and> (\<forall>f \<in> set new. required f \<longrightarrow> r)) \<and> set (snd st) \<subseteq> set (snd st'))"

text \<open>
  A node that \<^verbatim>\<open>walkSchema\<close> treats as an object with properties to walk: truthy, with no
  \<^verbatim>\<open>$ref\<close>, no non-empty composition, and of type \<^verbatim>\<open>object\<close> or untyped with a
  property map.
\<close>

definition plainObject :: "json \<Rightarrow> bool" where
  "plainObject s =
     (truthy (Some s) \<and> \<not> truthy (getProp s ''$ref'') \<and> \<not> lengthTruthy (getProp s ''allOf'')
      \<and> \<not> lengthTruthy (getProp s ''oneOf'') \<and> \<not> lengthTruthy (getProp s ''anyOf'')
      \<and> (getProp s ''type'' = Some (JStr ''object'')
         \<or> (\<not> truthy (getProp s ''type'') \<and> truthy (getProp s ''properties''))))"

text \<open>A resolved child that the loop over the properties emits itself: a leaf or an array.\<close>

definition directLeaf :: "json \<Rightarrow> bool" where
  "directLeaf c =
     ((\<not> truthy (getProp c ''$ref'') \<and> \<not> truthy (getProp c ''properties'')
        \<and> getProp c ''type'' \<noteq> Some (JStr ''object'') \<and> getProp c ''type'' \<noteq> Some (JStr ''array''))
      \<or> getProp c ''type'' = Some (JStr ''array''))"

definition propertiesOf :: "json \<Rightarrow> (string \<times> json) list" where
  "propertiesOf s = (case coalesce (getProp s ''properties'') (Some (JObj [])) of None \<Rightarrow> [] | Some props \<Rightarrow> entries props)"

text \<open>
  The claim's side of required propagation. A path leads from a walked node to a node that
  gets a descriptor, by steps of two kinds: \<open>Prop i\<close> goes from an object to its \<open>i\<close>-th
  property (in enumeration order), \<open>Member i\<close> from a node with a non-empty \<^verbatim>\<open>allOf\<close> to its
  \<open>i\<close>-th member; the node reached is resolved one hop each time. A path ends at a property
  that the loop over the properties emits itself (a leaf or an array), or at a node that
  emits one descriptor when walked (\<open>selfEmitting\<close>: a union, an object without properties,
  or anything that is neither a reference, a composition nor an object). \<open>descend doc s
  prefix steps\<close> returns the node the path ends at, the name of its descriptor, and whether
  every object on the way lists, in its \<^verbatim>\<open>required\<close> list, the name of the property the path
  leaves it by.
\<close>

datatype step = Prop nat | Member nat




text \<open>The descriptors a walk from \<open>st\<close> to \<open>st'\<close> has appended.\<close>

definition added :: "walk \<Rightarrow> walk \<Rightarrow> FieldInfo list" where
  "added st st' = drop (length (fst st)) (fst st')"





text \<open>
  A reference that does not resolve, and an object with two properties that carry it:
  \<^verbatim>\<open>{type: 'object', properties: {a: {$ref: 'other.json#/X'}, b: {$ref: 'other.json#/X'}}}\<close>;
  and an object whose two properties refer to the definition \<^verbatim>\<open>C\<close> of \<open>chainDoc\<close>.
\<close>

definition externalRef :: json where
  "externalRef = JObj [(''$ref'', JStr ''other.json#/X'')]"

definition twoExternal :: json where
  "twoExternal = JObj [(''type'', JStr ''object''),
                       (''properties'', JObj [(''a'', externalRef), (''b'', externalRef)])]"

definition twoShared :: json where
  "twoShared = JObj [(''type'', JStr ''object''),
                     (''properties'', JObj [(''a'', JObj [(''$ref'', JStr ''#/components/schemas/C'')]),
                                            (''b'', JObj [(''$ref'', JStr ''#/components/schemas/C'')])])]"

text \<open>
  The claim's side of the response section: the first value of a list that is neither
  \<^verbatim>\<open>undefined\<close> nor \<^verbatim>\<open>null\<close>; the response tried as \<^verbatim>\<open>200\<close>, \<^verbatim>\<open>201\<close>,
  \<^verbatim>\<open>default\<close>, then the first one the object enumerates; and its schema, from the
  content entry keyed \<^verbatim>\<open>application/json\<close>, \<^verbatim>\<open>*/*\<close> or, as written,
  \<^verbatim>\<open>application/*+json\<close>, else from the response itself.
\<close>

definition firstPresent :: "json option list \<Rightarrow> json option" where
  "firstPresent xs = (case filter (\<lambda>x. \<not> nullish x) xs of [] \<Rightarrow> None | x # rest \<Rightarrow> x)"

definition selectedResponse :: "json \<Rightarrow> json option" where
  "selectedResponse op =
     (let responses = coalesce (getProp op ''responses'') (Some (JObj []))
      in firstPresent [optProp responses ''200'', optProp responses ''201'', optProp responses ''default'',
                       (case responses of
                          None \<Rightarrow> None
                        | Some r \<Rightarrow> (case entries r of [] \<Rightarrow> None | (k, v) # rest \<Rightarrow> Some v))])"

definition selectedSchema :: "json \<Rightarrow> json option" where
  "selectedSchema resp =
     (let content = coalesce (getProp resp ''content'') (Some (JObj []));
          media = firstPresent [optProp content ''application/json'', optProp content ''*/*'',
                                optProp content ''application/*+json'']
      in if truthy (optProp media ''schema'') then optProp media ''schema''
         else if truthy (getProp resp ''schema'') then getProp resp ''schema''
         else None)"

definition documentedSchema :: "json \<Rightarrow> json option" where
  "documentedSchema op =
     (case selectedResponse op of
        None \<Rightarrow> None
      | Some resp \<Rightarrow> if truthy (Some resp) then selectedSchema resp else None)"

text \<open>
  The document of the end-to-end example, an operation whose first response has no schema
  and whose \<^verbatim>\<open>201\<close> response carries one directly, and an operation whose only content
  entry is keyed \<^verbatim>\<open>application/hal+json\<close>.
\<close>

definition usersSchema :: json where
  "usersSchema = JObj [(''type'', JStr ''object''), (''required'', JArr [JStr ''id'']),
                (''properties'', JObj [(''id'', JObj [(''type'', JStr ''string'')]),
                                       (''age'', JObj [(''type'', JStr ''integer'')])])]"

definition usersOperation :: json where
  "usersOperation = JObj
     [(''operationId'', JStr ''getUser''),
      (''parameters'', JArr [JObj [(''name'', JStr ''id''), (''in'', JStr ''path''), (''required'', JBool True),
                                   (''schema'', JObj [(''type'', JStr ''string'')])]]),
      (''responses'', JObj [(''200'', JObj [(''content'', JObj [(''application/json'',
                                JObj [(''schema'', usersSchema)])])])])]"

definition usersDoc :: json where
  "usersDoc = JObj [(''paths'', JObj [(''/users/{id}'', JObj [(''get'', usersOperation)])])]"

definition legacyOperation :: json where
  "legacyOperation = JObj
     [(''responses'', JObj [(''404'', JObj [(''description'', JStr ''missing'')]),
                            (''201'', JObj [(''schema'', usersSchema)])])]"

definition halOperation :: json where
  "halOperation = JObj
     [(''responses'', JObj [(''200'', JObj [(''content'', JObj [(''application/hal+json'',
                                JObj [(''schema'', JObj [(''type'', JStr ''string'')])])])])])]"

text \<open>
  What the claims about the extractor assume of \<^verbatim>\<open>localeCompare\<close>: that it is a
  consistent comparator in the sense of \<^verbatim>\<open>Array.prototype.sort\<close> (a total preorder, given
  as a three-way comparison), which may well compare two different strings as equal; and
  that no two different keys of the document at hand are compared as equal
  (\<open>tieFree\<close>). \<open>codeUnitCompare\<close> is the order of the character codes;
  \<open>collateCompare\<close> is a collation that ignores control characters, as the engine's does,
  so that \<^verbatim>\<open>'/a'\<close> and \<^verbatim>\<open>'/a\u0001'\<close> compare as equal.
\<close>

definition consistentCompare :: "(string \<Rightarrow> string \<Rightarrow> int) \<Rightarrow> bool" where
  "consistentCompare lc =
     ((\<forall>a. lc a a = 0)
      \<and> (\<forall>a b. lc a b < 0 \<longleftrightarrow> 0 < lc b a)
      \<and> (\<forall>a b c. lc a b \<le> 0 \<and> lc b c \<le> 0 \<longrightarrow> lc a c \<le> 0))"


definition codeUnitCompare :: "string \<Rightarrow> string \<Rightarrow> int" where
  "codeUnitCompare a b = (if a < b then - 1 else if a = b then 0 else 1)"









































section \<open>Properties of the reference resolver\<close>


lemma getProp_JObj: "getProp (JObj kvs) k = map_of kvs k"
  by (simp add: getProp_def)

lemma getProp_JNull: "getProp JNull k = None"
  by (simp add: getProp_def)

lemma show_nat_digits: "\<forall>c \<in> set (show_nat n). isDigit c"
proof (induction n rule: show_nat.induct)
  case (1 n)
  show ?case
  proof (cases "n < 10")
    case True
    then show ?thesis by (subst show_nat.simps) (simp add: isDigit_def)
  next
    case False
    have "isDigit (char_of (48 + n mod 10))"
      by (simp add: isDigit_def)
    with False 1 show ?thesis by (subst show_nat.simps) simp
  qed
qed

lemma index_key_digits:
  assumes "map_of (zip (map show_nat is) vs) k = Some v"
  shows "\<forall>c \<in> set k. isDigit c"
proof -
  from assms have "(k, v) \<in> set (zip (map show_nat is) vs)" by (rule map_of_SomeD)
  then have "k \<in> set (map show_nat is)" by (rule set_zip_leftD)
  then show ?thesis using show_nat_digits by auto
qed

text \<open>A key that is not \<^verbatim>\<open>length\<close> and not an index is a property of objects only.\<close>

lemma getProp_keyword:
  assumes "k \<noteq> ''length''" and "\<exists>c \<in> set k. \<not> isDigit c"
  shows "getProp v k = (case v of JObj kvs \<Rightarrow> map_of kvs k | _ \<Rightarrow> None)"
proof (cases v)
  case (JArr xs)
  have "map_of (entries (JArr xs)) k = None"
  proof (cases "map_of (entries (JArr xs)) k")
    case (Some w)
    then have "\<forall>c \<in> set k. isDigit c" unfolding entries_def by (auto dest: index_key_digits)
    with assms(2) show ?thesis by blast
  qed simp
  with JArr assms(1) show ?thesis by (simp add: getProp_def)
next
  case (JStr s)
  have "map_of (entries (JStr s)) k = None"
  proof (cases "map_of (entries (JStr s)) k")
    case (Some w)
    then have "\<forall>c \<in> set k. isDigit c" unfolding entries_def by (auto dest: index_key_digits)
    with assms(2) show ?thesis by blast
  qed simp
  with JStr assms(1) show ?thesis by (simp add: getProp_def)
qed (simp_all add: getProp_def)

lemma getProp_ref: "getProp v ''$ref'' = (case v of JObj kvs \<Rightarrow> map_of kvs ''$ref'' | _ \<Rightarrow> None)"
  by (rule getProp_keyword) (simp_all add: isDigit_def)

lemma map_of_spread_left:
  "map_of (map (\<lambda>(k, v). (k, case map_of b k of Some v' \<Rightarrow> v' | None \<Rightarrow> v)) a) k =
     (case map_of a k of None \<Rightarrow> None
      | Some v \<Rightarrow> (case map_of b k of Some v' \<Rightarrow> Some v' | None \<Rightarrow> Some v))"
  by (induction a) (auto split: option.splits)

lemma map_of_spread_right:
  "map_of (filter (\<lambda>(k, v). map_of a k = None) b) k =
     (if map_of a k = None then map_of b k else None)"
  by (induction b) auto

lemma map_of_spread:
  "map_of (spread a b) k = (case map_of b k of Some v \<Rightarrow> Some v | None \<Rightarrow> map_of a k)"
  unfolding spread_def map_of_append map_add_def map_of_spread_left map_of_spread_right
  by (auto split: option.splits)

lemma map_of_merged:
  "map_of (AList.delete ''$ref'' (spread a b)) k =
     (if k = ''$ref'' then None else case map_of b k of Some v \<Rightarrow> Some v | None \<Rightarrow> map_of a k)"
  by (simp add: delete_conv' map_of_spread)

lemma follow_isObject: "follow cur ps = Some d \<Longrightarrow> isObjectTarget (Some d)"
  by (induction cur ps rule: follow.induct) (auto split: option.splits if_splits)

lemma resolveRef_isObject:
  "resolveRef doc ref = Some d \<Longrightarrow> isObjectTarget (Some d) \<and> take 2 ref = ''#/''"
  by (auto simp: resolveRef_def split: if_splits dest: follow_isObject)

lemma resolveSchema_resolved:
  assumes "getProp schema ''$ref'' = Some (JStr ref)" and "resolveRef doc ref = Some direct"
  shows "resolveSchema doc schema =
           Inr (JObj (AList.delete ''$ref'' (spread (ownEntries direct) (entries schema))))"
proof -
  from assms(2) have "ref \<noteq> []" by (auto dest: resolveRef_isObject)
  with assms show ?thesis by (auto simp: resolveSchema_def getProp_JNull)
qed

































text \<open>
  C10. Whenever the pointer of a node resolves, the node returned carries no \<^verbatim>\<open>$ref\<close>
  at all, whatever the referenced definition is: a \<^verbatim>\<open>$ref\<close> of the definition is
  overridden by the node's own and then deleted. Resolving the result again returns it
  unchanged, so a chain of two references is never followed by calling the resolver on
  its own result.
\<close>

theorem resolveSchema_result_has_no_ref:
  assumes "getProp schema ''$ref'' = Some (JStr ref)" and "resolveRef doc ref = Some direct"
  shows "\<exists>m. resolveSchema doc schema = Inr (JObj m)
           \<and> getProp (JObj m) ''$ref'' = None
           \<and> resolveSchema doc (JObj m) = Inr (JObj m)"
proof -
  let ?m = "AList.delete ''$ref'' (spread (ownEntries direct) (entries schema))"
  have 1: "resolveSchema doc schema = Inr (JObj ?m)" using assms by (rule resolveSchema_resolved)
  have 2: "getProp (JObj ?m) ''$ref'' = None" by (simp add: getProp_def map_of_merged)
  then have "resolveSchema doc (JObj ?m) = Inr (JObj ?m)" by (simp add: resolveSchema_def)
  with 1 2 show ?thesis by blast
qed

theorem resolveSchema_result_has_no_ref_witness:
  "getProp (JObj [(''$ref'', JStr ''#/components/schemas/B'')]) ''$ref'' = Some (JStr ''#/components/schemas/B'')
   \<and> resolveRef chainDoc ''#/components/schemas/B''
       = Some (Value (JObj [(''$ref'', JStr ''#/components/schemas/C'')]))
   \<and> resolveSchema chainDoc (JObj [(''$ref'', JStr ''#/components/schemas/B'')]) = Inr (JObj [])
   \<and> resolveSchema chainDoc (JObj []) = Inr (JObj [])"
  using resolveSchema_result_has_no_ref [of "JObj [(''$ref'', JStr ''#/components/schemas/B'')]"
      "''#/components/schemas/B''" chainDoc "Value (JObj [(''$ref'', JStr ''#/components/schemas/C'')])"]
  by (simp add: resolveRef_def chainDoc_def getProp_def resolveSchema_def spread_def entries_def)

section \<open>Flattening a self-referential schema\<close>

lemma selfDoc_resolves:
  "resolveSchema selfDoc (JObj [(''$ref'', JStr ''#/components/schemas/A'')]) = Inr selfSchema"
  by (simp add: resolveSchema_def resolveRef_def selfDoc_def selfSchema_def getProp_def spread_def entries_def)

lemma selfSchema_resolves: "resolveSchema selfDoc selfSchema = Inr selfSchema"
  by (simp add: resolveSchema_def selfSchema_def getProp_def)

text \<open>
  The loop over the properties resolves \<^verbatim>\<open>self\<close> before it calls \<^verbatim>\<open>walkSchema\<close>, so
  the callee receives a copy of \<^verbatim>\<open>A\<close> without \<^verbatim>\<open>$ref\<close>: the test of
  \<^verbatim>\<open>visitedRefs\<close> is not reached and the walk starts over, one level deeper.
\<close>

lemma walk_self_never_returns: "walkSchema n selfDoc (Some selfSchema) prefix req st = None"
proof (induction n arbitrary: prefix req st)
  case 0
  show ?case by simp
next
  case (Suc n)
  have step: "propStep (\<lambda>x. schemaToTypeText n selfDoc x) (\<lambda>s p r st'. walkSchema n selfDoc s p r st')
          selfDoc [] prefix req (''self'', JObj [(''$ref'', JStr ''#/components/schemas/A'')]) st = None"
    unfolding propStep_def Let_def fst_conv snd_conv selfDoc_resolves
    by (simp add: Suc.IH) (simp add: selfSchema_def getProp_def)
  show ?case
    using step
    by (simp add: walkSchemaBody_def selfSchema_def getProp_def lengthTruthy_def coalesce_def
        iterate_def entries_def)
qed

text \<open>
  C1, at the schema \<^verbatim>\<open>A\<close> of the claim: for no bound on the depth of the recursion does
  \<^verbatim>\<open>flattenSchemaFields(doc, A)\<close> return.
\<close>

theorem flatten_self_reference_never_returns:
  "\<forall>n. flattenSchemaFields n selfDoc selfSchema = None"
  by (simp add: flattenSchemaFields_def selfSchema_resolves walk_self_never_returns)

section \<open>Flattening a union\<close>

text \<open>
  C9, at a node with an empty \<^verbatim>\<open>oneOf\<close> and a non-empty \<^verbatim>\<open>anyOf\<close>: the flattener
  emits one descriptor whose type is the empty string, since \<^verbatim>\<open>oneOf ?? anyOf\<close> takes
  the empty \<^verbatim>\<open>oneOf\<close>; the renderer prints the same node as \<^verbatim>\<open>string\<close>.
\<close>

theorem flatten_empty_oneOf_ignores_anyOf:
  "\<forall>n. flattenSchemaFields (Suc n) selfDoc emptyUnion
         = Some (Inr [\<lparr>name = ''(root)'', type = JStr [], required = True, description = None\<rparr>])
       \<and> schemaToTypeText (Suc (Suc n)) selfDoc (Some emptyUnion) = Some (Inr (JStr ''string''))"
  by (simp add: flattenSchemaFields_def walkSchemaBody_def schemaToTypeTextBody_def untypedText_def
      typedText_def emptyUnion_def
      resolveSchema_def getProp_def lengthTruthy_def coalesce_def renderMembers_def joinValues_def
      rootName_def)

section \<open>The recursion bound\<close>

text \<open>A call that returns within a bound returns the same within every larger one.\<close>

lemma mapOutcome_mono:
  assumes "\<And>x r. f x = Some r \<Longrightarrow> g x = Some r"
  shows "mapOutcome f xs = Some r \<Longrightarrow> mapOutcome g xs = Some r"
proof (induction xs arbitrary: r)
  case Nil
  then show ?case by simp
next
  case (Cons x xs)
  show ?case
  proof (cases "f x")
    case None
    with Cons.prems show ?thesis by simp
  next
    case (Some a)
    then have g: "g x = Some a" by (rule assms)
    show ?thesis
    proof (cases a)
      case (Inl e)
      with Cons.prems Some g show ?thesis by simp
    next
      case (Inr y)
      show ?thesis
      proof (cases "mapOutcome f xs")
        case None
        with Cons.prems Some Inr show ?thesis by simp
      next
        case (Some b)
        then have "mapOutcome g xs = Some b" by (rule Cons.IH)
        with Cons.prems \<open>f x = Some a\<close> g Inr Some show ?thesis by simp
      qed
    qed
  qed
qed

lemma renderMembers_mono:
  assumes "\<And>x r. f x = Some r \<Longrightarrow> g x = Some r"
  shows "renderMembers f sep m = Some r \<Longrightarrow> renderMembers g sep m = Some r"
proof -
  assume a: "renderMembers f sep m = Some r"
  show ?thesis
  proof (cases "\<exists>xs. m = Some (JArr xs)")
    case False
    then have "renderMembers g sep m = renderMembers f sep m"
      by (auto simp: renderMembers_def split: option.splits json.splits)
    with a show ?thesis by simp
  next
    case True
    then obtain xs where m: "m = Some (JArr xs)" by blast
    from a m obtain b where b: "mapOutcome (\<lambda>x. f (Some x)) xs = Some b"
      by (auto simp: renderMembers_def split: option.splits)
    then have "mapOutcome (\<lambda>x. g (Some x)) xs = Some b"
      by (rule mapOutcome_mono[rotated]) (rule assms)
    with a m b show ?thesis by (simp add: renderMembers_def)
  qed
qed

lemma case_outcome_mono:
  assumes "\<And>r. f = Some r \<Longrightarrow> g = Some r"
    and "(case f of None \<Rightarrow> None | Some (Inl e) \<Rightarrow> Some (Inl e) | Some (Inr t) \<Rightarrow> k t) = Some r"
  shows "(case g of None \<Rightarrow> None | Some (Inl e) \<Rightarrow> Some (Inl e) | Some (Inr t) \<Rightarrow> k t) = Some r"
  using assms by (cases f) auto

lemma untypedText_mono:
  assumes le: "\<And>x r. f x = Some r \<Longrightarrow> g x = Some r"
    and a: "untypedText f s = Some r"
  shows "untypedText g s = Some r"
proof -
  note rm = renderMembers_mono[of f g, OF le]
  show ?thesis
    using a unfolding untypedText_def
    by (auto split: if_splits intro: rm)
qed

lemma typedText_mono:
  assumes le: "\<And>x r. f x = Some r \<Longrightarrow> g x = Some r"
    and a: "typedText f s ty = Some r"
  shows "typedText g s ty = Some r"
proof -
  have c: "\<And>x k. (case f x of None \<Rightarrow> None | Some (Inl e) \<Rightarrow> Some (Inl e) | Some (Inr t) \<Rightarrow> k t) = Some r
      \<Longrightarrow> (case g x of None \<Rightarrow> None | Some (Inl e) \<Rightarrow> Some (Inl e) | Some (Inr t) \<Rightarrow> k t) = Some r"
    by (rule case_outcome_mono[rotated], assumption) (rule le)
  consider (int) "ty = JStr ''integer'' \<and> (getProp s ''format'' = Some (JStr ''int64'') \<or> getProp s ''format'' = Some (JStr ''uint64''))"
    | (arr) "ty = JStr ''array''"
    | (obj) "ty = JStr ''object''"
    | (other) "\<not> (ty = JStr ''integer'' \<and> (getProp s ''format'' = Some (JStr ''int64'') \<or> getProp s ''format'' = Some (JStr ''uint64'')))"
       "ty \<noteq> JStr ''array''" "ty \<noteq> JStr ''object''"
    by blast
  then show ?thesis
  proof cases
    case int
    with a show ?thesis by (simp add: typedText_def)
  next
    case arr
    with a show ?thesis by (auto simp: typedText_def intro: c)
  next
    case obj
    with a show ?thesis by (auto simp: typedText_def intro: c split: if_splits)
  next
    case other
    then have "typedText g s ty = typedText f s ty" by (auto simp: typedText_def)
    with a show ?thesis by simp
  qed
qed

lemma schemaToTypeTextBody_mono:
  assumes le: "\<And>x r. f x = Some r \<Longrightarrow> g x = Some r"
    and a: "schemaToTypeTextBody f doc schema = Some r"
  shows "schemaToTypeTextBody g doc schema = Some r"
  using a unfolding schemaToTypeTextBody_def
  by (auto split: option.splits sum.splits if_splits
      intro: untypedText_mono[of f g, OF le] typedText_mono[of f g, OF le])

lemma schemaToTypeText_Suc: "schemaToTypeText n doc s = Some r \<Longrightarrow> schemaToTypeText (Suc n) doc s = Some r"
proof (induction n arbitrary: s r)
  case 0
  then show ?case by simp
next
  case (Suc n)
  from Suc.prems have "schemaToTypeTextBody (\<lambda>x. schemaToTypeText n doc x) doc s = Some r"
    by (simp only: schemaToTypeText.simps)
  then have "schemaToTypeTextBody (\<lambda>x. schemaToTypeText (Suc n) doc x) doc s = Some r"
    by (rule schemaToTypeTextBody_mono[rotated]) (rule Suc.IH)
  then show ?case by (subst schemaToTypeText.simps(2))
qed


section \<open>What a walk does to its state\<close>

lemma extends_refl: "extends r st st"
  by (simp add: extends_def)

lemma extends_trans: "extends r a b \<Longrightarrow> extends r b c \<Longrightarrow> extends r a c"
  unfolding extends_def by (elim conjE exE) (rule conjI, rule_tac x = "new @ newa" in exI, auto)

lemma extends_weaken: "extends (r \<and> q) a b \<Longrightarrow> extends r a b"
  unfolding extends_def by auto

lemma forEach_invariant:
  assumes "forEach body xs st = Some (Inr st')"
    and "\<And>x s s'. x \<in> set xs \<Longrightarrow> body x s = Some (Inr s') \<Longrightarrow> R s s'"
    and "\<And>s. R s s" and "\<And>a b c. R a b \<Longrightarrow> R b c \<Longrightarrow> R a c"
  shows "R st st'"
  using assms(1,2)
proof (induction xs arbitrary: st)
  case Nil
  then show ?case by (simp add: assms(3))
next
  case (Cons x xs)
  from Cons.prems(1) obtain s1 where 1: "body x st = Some (Inr s1)" and 2: "forEach body xs s1 = Some (Inr st')"
    by (auto split: option.splits sum.splits)
  have "R st s1" using 1 Cons.prems(2)[of x st s1] by simp
  moreover have "R s1 st'" using 2 Cons.prems(2) by (intro Cons.IH) auto
  ultimately show ?case by (rule assms(4))
qed

lemma pushField_extends:
  "pushField render schema nm req st = Some (Inr st') \<Longrightarrow> extends req st st'"
  by (auto simp: pushField_def extends_def split: option.splits sum.splits)

lemma propStep_extends:
  assumes "propStep render walk doc requiredSet prefix r entry st = Some (Inr st')"
    and "\<And>s p q a b. walk s p q a = Some (Inr b) \<Longrightarrow> extends q a b"
  shows "extends r st st'"
proof -
  let ?q = "r \<and> JStr (fst entry) \<in> set requiredSet"
  have "extends ?q st st'"
    using assms(1) unfolding propStep_def Let_def
    by (auto split: sum.splits if_splits dest: pushField_extends assms(2))
  then show ?thesis by (rule extends_weaken)
qed

lemma walkSchemaBody_extends:
  assumes "walkSchemaBody render walk doc schema prefix r st = Some (Inr st')"
    and IH: "\<And>s p q a b. walk s p q a = Some (Inr b) \<Longrightarrow> extends q a b"
  shows "extends r st st'"
proof (cases schema)
  case None
  with assms(1) show ?thesis by (simp add: walkSchemaBody_def extends_refl)
next
  case (Some sch)
  note sch = Some
  consider (falsy) "\<not> truthy schema"
    | (ref) "truthy schema" "truthy (getProp sch ''$ref'')"
    | (allOf) "truthy schema" "\<not> truthy (getProp sch ''$ref'')" "lengthTruthy (getProp sch ''allOf'')"
    | (union) "truthy schema" "\<not> truthy (getProp sch ''$ref'')" "\<not> lengthTruthy (getProp sch ''allOf'')"
        "lengthTruthy (getProp sch ''oneOf'') \<or> lengthTruthy (getProp sch ''anyOf'')"
    | (other) "truthy schema" "\<not> truthy (getProp sch ''$ref'')" "\<not> lengthTruthy (getProp sch ''allOf'')"
        "\<not> (lengthTruthy (getProp sch ''oneOf'') \<or> lengthTruthy (getProp sch ''anyOf''))"
    by blast
  then show ?thesis
  proof cases
    case falsy
    with assms(1) sch show ?thesis by (simp add: walkSchemaBody_def extends_refl)
  next
    case ref
    show ?thesis
    proof (cases "getProp sch ''$ref''")
      case None
      with ref show ?thesis by simp
    next
      case (Some v)
      show ?thesis
      proof (cases "\<exists>rf. v = JStr rf")
        case False
        with assms(1) sch ref Some show ?thesis
          by (cases v) (simp_all add: walkSchemaBody_def)
      next
        case True
        then obtain rf where v: "v = JStr rf" by blast
        show ?thesis
        proof (cases "rf \<in> set (snd st)")
          case True
          with assms(1) sch ref Some v show ?thesis by (simp add: walkSchemaBody_def extends_refl)
        next
          case False
          with assms(1) sch ref Some v obtain resolved where
            "walk (Some resolved) prefix r (fst st, rf # snd st) = Some (Inr st')"
            by (auto simp: walkSchemaBody_def split: sum.splits)
          then have "extends r (fst st, rf # snd st) st'" by (rule IH)
          then show ?thesis by (auto simp: extends_def)
        qed
      qed
    qed
  next
    case allOf
    with assms(1) sch obtain parts where
      fe: "forEach (\<lambda>part st'. case resolveSchema doc part of Inl e \<Rightarrow> Some (Inl e)
                | Inr resolved \<Rightarrow> walk (Some resolved) prefix r st') parts st = Some (Inr st')"
      by (auto simp: walkSchemaBody_def split: sum.splits)
    show ?thesis
      by (rule forEach_invariant[OF fe]) (auto split: sum.splits intro: IH extends_refl extends_trans)
  next
    case union
    with assms(1) sch show ?thesis
      by (auto simp: walkSchemaBody_def extends_def split: option.splits sum.splits)
  next
    case other
    show ?thesis
    proof (cases "getProp sch ''type'' = Some (JStr ''object'')
                  \<or> (\<not> truthy (getProp sch ''type'') \<and> truthy (getProp sch ''properties''))")
      case False
      with assms(1) sch other have "pushField render sch (rootName prefix) r st = Some (Inr st')"
        by (auto simp: walkSchemaBody_def split: if_splits)
      then show ?thesis by (rule pushField_extends)
    next
      case True
      with assms(1) sch other obtain requiredSet props where
        alt: "pushField render sch (rootName prefix) r st = Some (Inr st')
           \<or> forEach (propStep render walk doc requiredSet prefix r) (entries props) st = Some (Inr st')"
        by (auto simp: walkSchemaBody_def split: sum.splits option.splits if_splits)
      then show ?thesis
      proof
        assume "pushField render sch (rootName prefix) r st = Some (Inr st')"
        then show ?thesis by (rule pushField_extends)
      next
        assume fe: "forEach (propStep render walk doc requiredSet prefix r) (entries props) st = Some (Inr st')"
        show ?thesis
          by (rule forEach_invariant[OF fe]) (auto intro: propStep_extends IH extends_refl extends_trans)
      qed
    qed
  qed
qed

lemma walkSchema_extends:
  "walkSchema n doc schema prefix r st = Some (Inr st') \<Longrightarrow> extends r st st'"
proof (induction n arbitrary: schema prefix r st st')
  case 0
  then show ?case by simp
next
  case (Suc n)
  from Suc.prems show ?case
    by (simp only: walkSchema.simps) (erule walkSchemaBody_extends, erule Suc.IH)
qed

lemma extends_added: "extends r st st' \<Longrightarrow> fst st' = fst st @ added st st'"
  by (auto simp: extends_def added_def)




lemma walkSchemaBody_plainObject:
  assumes "plainObject s"
  shows "walkSchemaBody render walk doc (Some s) prefix r st =
     (case iterate (coalesce (getProp s ''required'') (Some (JArr []))) of
        Inl e \<Rightarrow> Some (Inl e)
      | Inr requiredSet \<Rightarrow>
          if propertiesOf s = [] then pushField render s (rootName prefix) r st
          else forEach (propStep render walk doc requiredSet prefix r) (propertiesOf s) st)"
  using assms
  by (auto simp: walkSchemaBody_def plainObject_def propertiesOf_def coalesce_def split: sum.splits option.splits)

lemma plainObject_not_directLeaf: "plainObject c \<Longrightarrow> \<not> directLeaf c"
  by (auto simp: plainObject_def directLeaf_def)

section \<open>The set of visited references\<close>

lemma truthy_ref_object: "truthy (getProp s ''$ref'') \<Longrightarrow> truthy (Some s)"
  by (cases s) (auto simp: getProp_ref)

lemma resolveSchema_idem: "resolveSchema doc x = Inr s \<Longrightarrow> resolveSchema doc s = Inr s"
proof -
  assume a: "resolveSchema doc x = Inr s"
  show ?thesis
  proof (cases "s = x")
    case True
    with a show ?thesis by simp
  next
    case False
    with a obtain direct where "s = JObj (AList.delete ''$ref'' (spread (ownEntries direct) (entries x)))"
      by (auto simp: resolveSchema_def split: if_splits option.splits json.splits)
    then show ?thesis by (simp add: resolveSchema_def getProp_JObj map_of_merged)
  qed
qed

lemma walkSchemaBody_falsy:
  "\<not> truthy schema \<Longrightarrow> walkSchemaBody render walk doc schema p q st = Some (Inr st)"
  by (auto simp: walkSchemaBody_def split: option.splits)

lemma walkSchemaBody_ref:
  assumes "getProp sch ''$ref'' = Some (JStr rf)" and "rf \<noteq> []"
  shows "walkSchemaBody render walk doc (Some sch) p q st =
     (if rf \<in> set (snd st) then Some (Inr st)
      else case resolveSchema doc sch of
             Inl e \<Rightarrow> Some (Inl e)
           | Inr resolved \<Rightarrow> walk (Some resolved) p q (fst st, rf # snd st))"
proof -
  from assms have "truthy (getProp sch ''$ref'')" by simp
  then have "truthy (Some sch)" by (rule truthy_ref_object)
  with assms show ?thesis by (simp add: walkSchemaBody_def)
qed

lemma walkSchemaBody_badref:
  assumes "truthy (getProp sch ''$ref'')" and "\<forall>rf. getProp sch ''$ref'' \<noteq> Some (JStr rf)"
  shows "walkSchemaBody render walk doc (Some sch) p q st = Some (Inl TypeError)"
proof -
  from assms(1) have "truthy (Some sch)" by (rule truthy_ref_object)
  with assms show ?thesis
    by (auto simp: walkSchemaBody_def split: option.splits json.splits)
qed

lemma walkSchemaBody_allOf:
  assumes "truthy (Some sch)" "\<not> truthy (getProp sch ''$ref'')" "lengthTruthy (getProp sch ''allOf'')"
  shows "walkSchemaBody render walk doc (Some sch) p q st =
     (case iterate (getProp sch ''allOf'') of
        Inl e \<Rightarrow> Some (Inl e)
      | Inr parts \<Rightarrow>
          forEach (\<lambda>part st'. case resolveSchema doc part of
                                 Inl e \<Rightarrow> Some (Inl e)
                               | Inr resolved \<Rightarrow> walk (Some resolved) p q st') parts st)"
  using assms by (simp add: walkSchemaBody_def)

lemma walkSchemaBody_union:
  assumes "truthy (Some sch)" "\<not> truthy (getProp sch ''$ref'')" "\<not> lengthTruthy (getProp sch ''allOf'')"
    "lengthTruthy (getProp sch ''oneOf'') \<or> lengthTruthy (getProp sch ''anyOf'')"
  shows "walkSchemaBody render walk doc (Some sch) p q st =
     (case renderMembers render '' | ''
             (coalesce (coalesce (getProp sch ''oneOf'') (getProp sch ''anyOf'')) (Some (JArr []))) of
        None \<Rightarrow> None
      | Some (Inl e) \<Rightarrow> Some (Inl e)
      | Some (Inr t) \<Rightarrow>
          Some (Inr (fst st @ [\<lparr>name = rootName p, type = t, required = q,
                                 description = getProp sch ''description''\<rparr>], snd st)))"
  using assms by (auto simp: walkSchemaBody_def)

lemma walkSchemaBody_other:
  assumes "truthy (Some sch)" "\<not> truthy (getProp sch ''$ref'')" "\<not> lengthTruthy (getProp sch ''allOf'')"
    "\<not> lengthTruthy (getProp sch ''oneOf'')" "\<not> lengthTruthy (getProp sch ''anyOf'')"
    "\<not> plainObject sch"
  shows "walkSchemaBody render walk doc (Some sch) p q st = pushField render sch (rootName p) q st"
  using assms by (auto simp: walkSchemaBody_def plainObject_def)

lemma node_cases [case_names falsy badref ref allOf union object other]:
  assumes "\<not> truthy (Some sch) \<Longrightarrow> P"
    and "truthy (getProp sch ''$ref'') \<Longrightarrow> \<forall>rf. getProp sch ''$ref'' \<noteq> Some (JStr rf) \<Longrightarrow> P"
    and "\<And>rf. getProp sch ''$ref'' = Some (JStr rf) \<Longrightarrow> rf \<noteq> [] \<Longrightarrow> P"
    and "truthy (Some sch) \<Longrightarrow> \<not> truthy (getProp sch ''$ref'') \<Longrightarrow> lengthTruthy (getProp sch ''allOf'') \<Longrightarrow> P"
    and "truthy (Some sch) \<Longrightarrow> \<not> truthy (getProp sch ''$ref'') \<Longrightarrow> \<not> lengthTruthy (getProp sch ''allOf'')
         \<Longrightarrow> lengthTruthy (getProp sch ''oneOf'') \<or> lengthTruthy (getProp sch ''anyOf'') \<Longrightarrow> P"
    and "plainObject sch \<Longrightarrow> P"
    and "truthy (Some sch) \<Longrightarrow> \<not> truthy (getProp sch ''$ref'') \<Longrightarrow> \<not> lengthTruthy (getProp sch ''allOf'')
         \<Longrightarrow> \<not> lengthTruthy (getProp sch ''oneOf'') \<Longrightarrow> \<not> lengthTruthy (getProp sch ''anyOf'')
         \<Longrightarrow> \<not> plainObject sch \<Longrightarrow> P"
  shows P
proof (cases "truthy (getProp sch ''$ref'')")
  case True
  show ?thesis
  proof (cases "\<exists>rf. getProp sch ''$ref'' = Some (JStr rf)")
    case False
    with True assms(2) show ?thesis by blast
  next
    case e: True
    then obtain rf where "getProp sch ''$ref'' = Some (JStr rf)" by blast
    with True assms(3)[of rf] show ?thesis by auto
  qed
next
  case False
  with assms show ?thesis unfolding plainObject_def by blast
qed

lemma walkSchema_marked:
  assumes "getProp s ''$ref'' = Some (JStr rf)" "rf \<noteq> []" "rf \<in> set v"
  shows "walkSchema (Suc n) doc (Some s) p q (o', v) = Some (Inr (o', v))"
  using assms by (simp add: walkSchemaBody_ref)

lemma forEach_sim:
  assumes "forEach b xs (o1, v) = Some (Inr (o', v'))"
    and "\<And>x o1 v o' v' v2. x \<in> set xs \<Longrightarrow> b x (o1, v) = Some (Inr (o', v'))
            \<Longrightarrow> \<exists>v2'. b' x (o1, v2) = Some (Inr (o', v2'))"
  shows "\<exists>v2'. forEach b' xs (o1, v2) = Some (Inr (o', v2'))"
  using assms
proof (induction xs arbitrary: o1 v v2)
  case Nil
  then show ?case by simp
next
  case (Cons x xs)
  from Cons.prems(1) obtain o2 w where 1: "b x (o1, v) = Some (Inr (o2, w))"
    and 2: "forEach b xs (o2, w) = Some (Inr (o', v'))"
    by (auto split: option.splits sum.splits)
  from Cons.prems(2)[of x o1 v o2 w v2] 1 obtain w2 where 3: "b' x (o1, v2) = Some (Inr (o2, w2))"
    by auto
  have "\<exists>v2'. forEach b' xs (o2, w2) = Some (Inr (o', v2'))"
    using 2 by (rule Cons.IH) (rule Cons.prems(2), auto)
  with 3 show ?case by simp
qed

lemma pushField_sim:
  assumes "pushField render s nm q (o1, v) = Some (Inr (o', v'))"
    and "\<And>x r. render x = Some r \<Longrightarrow> render' x = Some r"
  shows "pushField render' s nm q (o1, v2) = Some (Inr (o', v2))"
proof -
  from assms(1) obtain t where "render (Some s) = Some (Inr t)"
    and "o' = o1 @ [\<lparr>name = nm, type = t, required = q, description = getProp s ''description''\<rparr>]"
    by (auto simp: pushField_def split: option.splits sum.splits)
  moreover from this(1) have "render' (Some s) = Some (Inr t)" by (rule assms(2))
  ultimately show ?thesis by (simp add: pushField_def)
qed

lemma propStep_sim:
  assumes "propStep render walk doc rs p q e (o1, v) = Some (Inr (o', v'))"
    and "\<And>x r. render x = Some r \<Longrightarrow> render' x = Some r"
    and "\<And>s p q o1 v o' v' v2. resolveSchema doc s = Inr s \<Longrightarrow> walk (Some s) p q (o1, v) = Some (Inr (o', v'))
            \<Longrightarrow> \<exists>v2'. walk' (Some s) p q (o1, v2) = Some (Inr (o', v2'))"
  shows "\<exists>v2'. propStep render' walk' doc rs p q e (o1, v2) = Some (Inr (o', v2'))"
proof -
  from assms(1) obtain c where c: "resolveSchema doc (snd e) = Inr c"
    by (auto simp: propStep_def Let_def split: sum.splits)
  then have cc: "resolveSchema doc c = Inr c" by (rule resolveSchema_idem)
  let ?cp = "if p \<noteq> [] then p @ ''.'' @ fst e else fst e"
  let ?req = "q \<and> JStr (fst e) \<in> set rs"
  show ?thesis
  proof (cases "directLeaf c")
    case True
    with assms(1) c have "pushField render c ?cp ?req (o1, v) = Some (Inr (o', v'))"
      by (auto simp: propStep_def Let_def directLeaf_def split: if_splits)
    then have "pushField render' c ?cp ?req (o1, v2) = Some (Inr (o', v2))"
      by (rule pushField_sim) (rule assms(2))
    with True c show ?thesis by (auto simp: propStep_def Let_def directLeaf_def)
  next
    case False
    with assms(1) c have "walk (Some c) ?cp ?req (o1, v) = Some (Inr (o', v'))"
      by (auto simp: propStep_def Let_def directLeaf_def split: if_splits)
    with cc obtain v2' where "walk' (Some c) ?cp ?req (o1, v2) = Some (Inr (o', v2'))"
      using assms(3) by blast
    with False c show ?thesis by (auto simp: propStep_def Let_def directLeaf_def)
  qed
qed

lemma walk_sim:
  assumes "resolveSchema doc s = Inr s"
    and "walkSchema n doc (Some s) p q (o1, v) = Some (Inr (o', v'))"
  shows "\<exists>v2'. walkSchema (Suc n) doc (Some s) p q (o1, v2) = Some (Inr (o', v2'))"
  using assms
proof (induction n arbitrary: s p q o1 v o' v' v2)
  case 0
  then show ?case by simp
next
  case (Suc n)
  let ?r = "\<lambda>x. schemaToTypeText n doc x" and ?r' = "\<lambda>x. schemaToTypeText (Suc n) doc x"
  let ?w = "\<lambda>s p r st'. walkSchema n doc s p r st'" and ?w' = "\<lambda>s p r st'. walkSchema (Suc n) doc s p r st'"
  have rle: "\<And>x r. ?r x = Some r \<Longrightarrow> ?r' x = Some r" by (rule schemaToTypeText_Suc)
  have wsim: "\<And>s p q o1 v o' v' v2. resolveSchema doc s = Inr s \<Longrightarrow> ?w (Some s) p q (o1, v) = Some (Inr (o', v'))
            \<Longrightarrow> \<exists>v2'. ?w' (Some s) p q (o1, v2) = Some (Inr (o', v2'))"
    by (rule Suc.IH)
  have body: "walkSchemaBody ?r ?w doc (Some s) p q (o1, v) = Some (Inr (o', v'))"
    using Suc.prems(2) by (simp only: walkSchema.simps)
  have "\<exists>v2'. walkSchemaBody ?r' ?w' doc (Some s) p q (o1, v2) = Some (Inr (o', v2'))"
  proof (cases s rule: node_cases)
    case falsy
    with body show ?thesis by (simp add: walkSchemaBody_falsy)
  next
    case badref
    with body show ?thesis by (simp add: walkSchemaBody_badref)
  next
    case (ref rf)
    have same: "o' = o1"
    proof (cases "rf \<in> set v")
      case True
      with body ref show ?thesis by (simp add: walkSchemaBody_ref)
    next
      case False
      with body ref Suc.prems(1) have w: "walkSchema n doc (Some s) p q (o1, rf # v) = Some (Inr (o', v'))"
        by (simp add: walkSchemaBody_ref)
      then obtain m where "n = Suc m" by (cases n) auto
      with w ref show ?thesis by (simp add: walkSchemaBody_ref)
    qed
    show ?thesis
    proof (cases "rf \<in> set v2")
      case True
      with ref same show ?thesis by (simp add: walkSchemaBody_ref)
    next
      case False
      have "walkSchema (Suc n) doc (Some s) p q (o1, rf # v2) = Some (Inr (o1, rf # v2))"
        using ref by (intro walkSchema_marked) auto
      with False ref same Suc.prems(1) show ?thesis
        by (simp add: walkSchemaBody_ref del: walkSchema.simps)
    qed
  next
    case allOf
    let ?b = "\<lambda>w part st'. case resolveSchema doc part of Inl e \<Rightarrow> Some (Inl e)
                | Inr resolved \<Rightarrow> w (Some resolved) p q st'"
    from body allOf obtain parts where it: "iterate (getProp s ''allOf'') = Inr parts"
      and fe: "forEach (?b ?w) parts (o1, v) = Some (Inr (o', v'))"
      by (auto simp: walkSchemaBody_allOf split: sum.splits)
    have "\<exists>v2'. forEach (?b ?w') parts (o1, v2) = Some (Inr (o', v2'))"
      using fe
    proof (rule forEach_sim)
      fix x a b c d e
      assume "?b ?w x (a, b) = Some (Inr (c, d))"
      then obtain rx where rx: "resolveSchema doc x = Inr rx" and "?w (Some rx) p q (a, b) = Some (Inr (c, d))"
        by (auto split: sum.splits)
      moreover from rx have "resolveSchema doc rx = Inr rx" by (rule resolveSchema_idem)
      ultimately obtain e' where "?w' (Some rx) p q (a, e) = Some (Inr (c, e'))"
        using wsim by blast
      with rx show "\<exists>v2'. ?b ?w' x (a, e) = Some (Inr (c, v2'))" by simp
    qed
    with allOf it show ?thesis by (simp add: walkSchemaBody_allOf del: walkSchema.simps)
  next
    case union
    let ?m = "coalesce (coalesce (getProp s ''oneOf'') (getProp s ''anyOf'')) (Some (JArr []))"
    from body union obtain t where t: "renderMembers ?r '' | '' ?m = Some (Inr t)"
      and o': "o' = o1 @ [\<lparr>name = rootName p, type = t, required = q, description = getProp s ''description''\<rparr>]"
      by (auto simp: walkSchemaBody_union split: option.splits sum.splits)
    from t have "renderMembers ?r' '' | '' ?m = Some (Inr t)"
      by (rule renderMembers_mono[rotated]) (rule rle)
    with union o' show ?thesis by (simp add: walkSchemaBody_union del: schemaToTypeText.simps)
  next
    case object
    from body object obtain rs where it: "iterate (coalesce (getProp s ''required'') (Some (JArr []))) = Inr rs"
      by (auto simp: walkSchemaBody_plainObject split: sum.splits)
    show ?thesis
    proof (cases "propertiesOf s = []")
      case True
      with body object it have "pushField ?r s (rootName p) q (o1, v) = Some (Inr (o', v'))"
        by (simp add: walkSchemaBody_plainObject)
      then have "pushField ?r' s (rootName p) q (o1, v2) = Some (Inr (o', v2))"
        by (rule pushField_sim) (rule rle)
      with True object it show ?thesis
        by (simp add: walkSchemaBody_plainObject del: schemaToTypeText.simps)
    next
      case False
      with body object it have fe: "forEach (propStep ?r ?w doc rs p q) (propertiesOf s) (o1, v) = Some (Inr (o', v'))"
        by (simp add: walkSchemaBody_plainObject)
      have "\<exists>v2'. forEach (propStep ?r' ?w' doc rs p q) (propertiesOf s) (o1, v2) = Some (Inr (o', v2'))"
        using fe
      proof (rule forEach_sim)
        fix x a b c d e
        assume "propStep ?r ?w doc rs p q x (a, b) = Some (Inr (c, d))"
        then show "\<exists>v2'. propStep ?r' ?w' doc rs p q x (a, e) = Some (Inr (c, v2'))"
        proof (rule propStep_sim)
          show "\<And>x r. ?r x = Some r \<Longrightarrow> ?r' x = Some r" by (rule rle)
          show "\<And>s p q o1 v o' v' v2. resolveSchema doc s = Inr s
                 \<Longrightarrow> ?w (Some s) p q (o1, v) = Some (Inr (o', v'))
                 \<Longrightarrow> \<exists>v2'. ?w' (Some s) p q (o1, v2) = Some (Inr (o', v2'))"
            by (rule wsim)
        qed
      qed
      with False object it show ?thesis
        by (simp add: walkSchemaBody_plainObject del: schemaToTypeText.simps walkSchema.simps)
    qed
  next
    case other
    with body have "pushField ?r s (rootName p) q (o1, v) = Some (Inr (o', v'))"
      by (simp add: walkSchemaBody_other)
    then have "pushField ?r' s (rootName p) q (o1, v2) = Some (Inr (o', v2))"
      by (rule pushField_sim) (rule rle)
    with other show ?thesis by (simp add: walkSchemaBody_other del: schemaToTypeText.simps)
  qed
  then show ?case by (subst walkSchema.simps(2))
qed

lemmas walk_eval = walkSchemaBody_def schemaToTypeTextBody_def typedText_def untypedText_def
  getProp_def lengthTruthy_def coalesce_def iterate_def entries_def propStep_def pushField_def
  resolveSchema_def resolveRef_def rootName_def spread_def

text \<open>
  C2, as stated, at two sibling properties with the same unresolved reference. The walk of
  the first returns with the reference in the set; from that set the walk of the second
  returns at once, without a nested call (the exit at \<^verbatim>\<open>visitedRefs.has(ref)\<close>), where
  from the empty set it needs one (it marks the reference, resolves and recurses); and the
  set that the walk of the parent ends with still holds the reference. The set is one for
  the whole run and is never reduced.
\<close>

theorem visited_set_per_path_counterexample:
  "walkSchema 2 (JObj []) (Some externalRef) ''a'' False ([], []) = Some (Inr ([], [''other.json#/X'']))
   \<and> walkSchema 1 (JObj []) (Some externalRef) ''b'' False ([], [''other.json#/X''])
       = Some (Inr ([], [''other.json#/X'']))
   \<and> walkSchema 1 (JObj []) (Some externalRef) ''b'' False ([], []) = None
   \<and> walkSchema 3 (JObj []) (Some twoExternal) [] True ([], []) = Some (Inr ([], [''other.json#/X'']))"
  by (simp add: eval_nat_numeral walk_eval externalRef_def twoExternal_def)

text \<open>
  C2, amended. The set of visited references only grows during a walk, so a mark made on
  one branch is seen by every later sibling. What a walk emits does not depend on the set
  it starts from, though: for a node that has been through the resolver (as every node
  handed to \<^verbatim>\<open>walkSchema\<close> has), a walk that returns from one set returns the same
  descriptors from any other set, with at most one more nested call. A reference that
  resolves is expanded on every branch where it occurs.
\<close>

theorem visited_set_shared_output_independent:
  assumes "resolveSchema doc s = Inr s"
    and "walkSchema n doc (Some s) prefix r (out, vis) = Some (Inr (out', vis'))"
  shows "set vis \<subseteq> set vis'
       \<and> (\<forall>vis2. \<exists>vis2'. walkSchema (Suc n) doc (Some s) prefix r (out, vis2) = Some (Inr (out', vis2')))"
proof
  from assms(2) have "extends r (out, vis) (out', vis')" by (rule walkSchema_extends)
  then show "set vis \<subseteq> set vis'" by (simp add: extends_def)
  show "\<forall>vis2. \<exists>vis2'. walkSchema (Suc n) doc (Some s) prefix r (out, vis2) = Some (Inr (out', vis2'))"
    using walk_sim[OF assms] by blast
qed

lemma twoShared_walk:
  "walkSchema 2 chainDoc (Some twoShared) [] True ([], [])
     = Some (Inr ([\<lparr>name = ''a'', type = JStr ''string'', required = False, description = Some (JStr ''c'')\<rparr>,
                   \<lparr>name = ''b'', type = JStr ''string'', required = False, description = Some (JStr ''c'')\<rparr>], []))"
  by (simp add: eval_nat_numeral walk_eval twoShared_def chainDoc_def)

theorem visited_set_shared_output_independent_witness:
  "resolveSchema chainDoc twoShared = Inr twoShared
   \<and> walkSchema 2 chainDoc (Some twoShared) [] True ([], [])
     = Some (Inr ([\<lparr>name = ''a'', type = JStr ''string'', required = False, description = Some (JStr ''c'')\<rparr>,
                   \<lparr>name = ''b'', type = JStr ''string'', required = False, description = Some (JStr ''c'')\<rparr>], []))
   \<and> (\<exists>vis2'. walkSchema 3 chainDoc (Some twoShared) [] True ([], [''#/components/schemas/C''])
     = Some (Inr ([\<lparr>name = ''a'', type = JStr ''string'', required = False, description = Some (JStr ''c'')\<rparr>,
                   \<lparr>name = ''b'', type = JStr ''string'', required = False, description = Some (JStr ''c'')\<rparr>], vis2')))"
proof -
  have r: "resolveSchema chainDoc twoShared = Inr twoShared"
    by (simp add: resolveSchema_def twoShared_def getProp_def)
  have "Suc 2 = 3" by simp
  with visited_set_shared_output_independent [OF r twoShared_walk] r twoShared_walk
  show ?thesis by (simp del: walkSchema.simps) 
qed

section \<open>Required propagation\<close>



















section \<open>The response section\<close>

lemma firstPresent_coalesce3:
  "firstPresent [a, b, c] = (if nullish (coalesce (coalesce a b) c) then None else coalesce (coalesce a b) c)"
  by (auto simp: firstPresent_def coalesce_def)

lemma firstPresent_coalesce4:
  "firstPresent [a, b, c, d] =
     (if nullish (coalesce (coalesce (coalesce a b) c) d) then None
      else coalesce (coalesce (coalesce a b) c) d)"
  by (auto simp: firstPresent_def coalesce_def)

lemma show_nat_0: "show_nat 0 = ''0''"
  by code_simp

lemma entries_JArr_Cons: "entries (JArr (x # xs)) = (''0'', x) # zip (map show_nat [1..<Suc (length xs)]) xs"
  by (simp add: entries_def upt_conv_Cons show_nat_0 del: upt_Suc)

lemma entries_JStr_Cons:
  "entries (JStr (c # cs)) = (''0'', JStr [c]) # zip (map show_nat [1..<Suc (length cs)]) (map (\<lambda>c. JStr [c]) cs)"
  by (simp add: entries_def upt_conv_Cons show_nat_0 del: upt_Suc)

lemma firstResponse_first_entry:
  "firstResponse (Some r) = (case entries r of [] \<Rightarrow> None | (k, v) # rest \<Rightarrow> Some v)"
proof (cases r)
  case (JArr xs)
  then show ?thesis
    by (cases xs) (simp_all add: firstResponse_def entries_JArr_Cons getProp_def, simp add: entries_def)
next
  case (JStr s)
  then show ?thesis
    by (cases s) (simp_all add: firstResponse_def entries_JStr_Cons getProp_def, simp add: entries_def)
qed (auto simp: firstResponse_def entries_def getProp_def split: list.splits)

lemma optProp_nullish: "nullish x \<Longrightarrow> optProp x k = None"
  by (cases x rule: nullish.cases) (simp_all add: optProp_def)

lemma nullish_not_truthy: "nullish x \<Longrightarrow> \<not> truthy x"
  by (cases x rule: nullish.cases) simp_all

lemma selectedSchema_eq: "selectedSchema resp = extractResponseSchema resp"
  by (simp add: selectedSchema_def extractResponseSchema_def firstPresent_coalesce3 Let_def optProp_nullish)

lemma coalesce_Some: "\<exists>r. coalesce x (Some (JObj [])) = Some r"
  by (cases x) (auto simp: coalesce_def)

lemma buildResponseLines_documented:
  assumes "op \<noteq> JNull"
  shows "buildResponseLines n doc op =
     (case documentedSchema op of
        None \<Rightarrow> Some (Inr [])
      | Some schema \<Rightarrow>
          (case flattenSchemaFields n doc schema of
             None \<Rightarrow> None
           | Some (Inl e) \<Rightarrow> Some (Inl e)
           | Some (Inr flds) \<Rightarrow>
               if flds = [] then
                 (case schemaToTypeText n doc (Some schema) of
                    None \<Rightarrow> None
                  | Some (Inl e) \<Rightarrow> Some (Inl e)
                  | Some (Inr t) \<Rightarrow> Some (Inr [''- '' @ String t]))
               else Some (Inr (map fieldLine flds))))"
proof -
  obtain r where r: "coalesce (getProp op ''responses'') (Some (JObj [])) = Some r"
    using coalesce_Some by blast
  let ?p = "coalesce (coalesce (coalesce (optProp (Some r) ''200'') (optProp (Some r) ''201''))
                 (optProp (Some r) ''default'')) (firstResponse (Some r))"
  have sel: "selectedResponse op = (if nullish ?p then None else ?p)"
    by (simp add: selectedResponse_def r firstPresent_coalesce4 firstResponse_first_entry Let_def)
  have doc: "documentedSchema op = (case ?p of None \<Rightarrow> None
                | Some resp \<Rightarrow> if truthy ?p then extractResponseSchema resp else None)"
    by (auto simp: documentedSchema_def sel selectedSchema_eq split: option.splits dest: nullish_not_truthy)
  show ?thesis
    using assms
    by (simp add: buildResponseLines_def Let_def r doc split: option.splits)
qed

lemmas json_eval = getProp_def optProp_def coalesce_def entries_def firstResponse_def
  extractResponseSchema_def firstPresent_def

text \<open>
  C6, as stated, at a response whose only content entry is keyed
  \<^verbatim>\<open>application/hal+json\<close>: no schema is found and the section is empty. The third key
  is looked up as the literal string \<^verbatim>\<open>application/*+json\<close>.
\<close>

theorem hal_json_counterexample:
  "extractResponseSchema (JObj [(''content'', JObj [(''application/hal+json'',
       JObj [(''schema'', JObj [(''type'', JStr ''string'')])])])]) = None
   \<and> buildResponseLines 3 usersDoc halOperation = Some (Inr [])
   \<and> extractResponseSchema (JObj [(''content'', JObj [(''application/*+json'',
       JObj [(''schema'', JObj [(''type'', JStr ''string'')])])])]) = Some (JObj [(''type'', JStr ''string'')])"
  by (simp add: buildResponseLines_def halOperation_def json_eval)

text \<open>
  C6, amended. The response section is a function of the schema selected as
  \<open>documentedSchema\<close> says (the \<^verbatim>\<open>200\<close>, \<^verbatim>\<open>201\<close>, \<^verbatim>\<open>default\<close> entry, then the first
  enumerated response; the content entry keyed \<^verbatim>\<open>application/json\<close>, \<^verbatim>\<open>*/*\<close> or
  literally \<^verbatim>\<open>application/*+json\<close>, else the response's own \<^verbatim>\<open>schema\<close>): it is empty
  when there is none, and two operations with the same selected schema have the same
  section.
\<close>

theorem response_section_follows_selection:
  assumes "op \<noteq> JNull" and "op' \<noteq> JNull"
  shows "(documentedSchema op = None \<longrightarrow> buildResponseLines n doc op = Some (Inr []))
       \<and> (documentedSchema op = documentedSchema op' \<longrightarrow>
            buildResponseLines n doc op = buildResponseLines n doc op')"
  using assms by (simp add: buildResponseLines_documented)

lemma users_documented: "documentedSchema usersOperation = Some usersSchema"
  by (simp add: documentedSchema_def selectedResponse_def selectedSchema_def usersOperation_def usersSchema_def
      json_eval)

lemma legacy_documented: "documentedSchema legacyOperation = Some usersSchema"
  by (simp add: documentedSchema_def selectedResponse_def selectedSchema_def legacyOperation_def usersSchema_def
      json_eval)

lemma users_lines:
  "buildResponseLines 3 usersDoc usersOperation
     = Some (Inr [''- id: string'' @ requiredMarker, ''- age: integer''])"
proof -
  have "usersOperation \<noteq> JNull" by (simp add: usersOperation_def)
  then show ?thesis
    by (simp add: buildResponseLines_documented users_documented flattenSchemaFields_def usersSchema_def
        eval_nat_numeral walk_eval fieldLine_def)
qed

theorem response_section_follows_selection_witness:
  "usersOperation \<noteq> JNull \<and> legacyOperation \<noteq> JNull
   \<and> documentedSchema usersOperation = Some usersSchema
   \<and> documentedSchema legacyOperation = documentedSchema usersOperation
   \<and> buildResponseLines 3 usersDoc usersOperation
       = Some (Inr [''- id: string'' @ requiredMarker, ''- age: integer''])
   \<and> buildResponseLines 3 usersDoc legacyOperation = buildResponseLines 3 usersDoc usersOperation"
proof -
  have 1: "usersOperation \<noteq> JNull" by (simp add: usersOperation_def)
  have 2: "legacyOperation \<noteq> JNull" by (simp add: legacyOperation_def)
  have 3: "documentedSchema legacyOperation = documentedSchema usersOperation"
    by (simp add: users_documented legacy_documented)
  from response_section_follows_selection [OF 2 1, of 3 usersDoc] 3
  have "buildResponseLines 3 usersDoc legacyOperation = buildResponseLines 3 usersDoc usersOperation"
    by blast
  with 1 2 3 users_documented users_lines show ?thesis by simp
qed

section \<open>The operation extractor\<close>
































lemma consistent_codeUnit: "consistentCompare codeUnitCompare"
  by (auto simp: consistentCompare_def codeUnitCompare_def)












section \<open>Totality of the renderer\<close>

lemma getProp_key:
  assumes "k \<noteq> ''length''" and "\<not> isDigit (hd k)" and "k \<noteq> []"
  shows "getProp v k = (case v of JObj kvs \<Rightarrow> map_of kvs k | _ \<Rightarrow> None)"
proof (rule getProp_keyword)
  show "k \<noteq> ''length''" by (rule assms(1))
  from assms(2,3) show "\<exists>c \<in> set k. \<not> isDigit c" by (cases k) auto
qed






lemmas getProp_type = getProp_key[of "''type''", simplified isDigit_def, simplified]





































section \<open>Unions with a non-empty list\<close>

text \<open>
  Where \<^verbatim>\<open>oneOf\<close> is a non-empty array, or is absent (or \<^verbatim>\<open>null\<close>) and \<^verbatim>\<open>anyOf\<close> is a
  non-empty array, a walk that returns has appended exactly one descriptor, at the current
  prefix, with the rendered members joined by \<^verbatim>\<open> | \<close>, the current flag and the node's
  description, and has left the set of visited references alone.
\<close>

lemma walk_union_emits_one:
  assumes "truthy (Some s)" and "\<not> truthy (getProp s ''$ref'')" and "\<not> lengthTruthy (getProp s ''allOf'')"
    and u: "getProp s ''oneOf'' = Some (JArr (u # us))
          \<or> (nullish (getProp s ''oneOf'') \<and> getProp s ''anyOf'' = Some (JArr (u # us)))"
    and w: "walkSchema (Suc n) doc (Some s) prefix r (out, vis) = Some (Inr (out', vis'))"
  shows "\<exists>ts. mapOutcome (\<lambda>x. schemaToTypeText n doc (Some x)) (u # us) = Some (Inr ts)
           \<and> out' = out @ [\<lparr>name = rootName prefix, type = JStr (joinValues '' | '' ts), required = r,
                              description = getProp s ''description''\<rparr>]
           \<and> vis' = vis"
proof -
  have len: "lengthTruthy (Some (JArr (u # us)))" by (simp add: lengthTruthy_def getProp_def)
  from u len have l: "lengthTruthy (getProp s ''oneOf'') \<or> lengthTruthy (getProp s ''anyOf'')" by auto
  from u have c: "coalesce (coalesce (getProp s ''oneOf'') (getProp s ''anyOf'')) (Some (JArr []))
                   = Some (JArr (u # us))"
    by (auto simp: coalesce_def)
  from w show ?thesis
    unfolding walkSchema.simps walkSchemaBody_union[OF assms(1-3) l] c
    by (auto simp: renderMembers_def split: option.splits sum.splits)
qed

lemma flatten_union_example:
  "flattenSchemaFields 2 (JObj [])
     (JObj [(''oneOf'', JArr [JObj [(''type'', JStr ''string'')], JObj [(''type'', JStr ''integer'')]])])
   = Some (Inr [\<lparr>name = ''(root)'', type = JStr ''string | integer'', required = True, description = None\<rparr>])"
  by (simp add: flattenSchemaFields_def eval_nat_numeral walk_eval renderMembers_def joinValues_def)

end
